theory Spec2Isabelle
  imports Main "HOL-Library.Monad_Syntax"
begin

section \<open>The task store of the todo dashboard\<close>

text \<open>
  The development follows \<^verbatim>\<open>src/features/todos/todosSlice.ts\<close> (the Redux slice with
  the reducers), the store module with \<^verbatim>\<open>loadState\<close> and \<^verbatim>\<open>saveState\<close>, and
  \<^verbatim>\<open>handleFormSubmit\<close> of \<^verbatim>\<open>App.tsx\<close>.

  Conventions of the embedding.
  \<^item> A JavaScript string is a \<^typ>\<open>string\<close>; a \<^typ>\<open>char\<close> stands for a code unit
    below 256.
  \<^item> The \<^verbatim>\<open>number\<close> in the field \<^verbatim>\<open>order\<close> is a \<open>number\<close>: a whole number that
    an IEEE double holds exactly, with the addition of doubles (section Numbers).
  \<^item> An optional property \<^verbatim>\<open>f?: string\<close> is a \<^typ>\<open>string option\<close>, \<open>None\<close> being
    \<^verbatim>\<open>undefined\<close>. A property \<^verbatim>\<open>f?: string | null\<close> has three shapes and is a
    \<open>string nullable\<close>.
  \<^item> The reducers are written against an Immer draft and mutate it; here each reducer
    returns the next state. The reference \<^verbatim>\<open>todo\<close> obtained from
    \<^verbatim>\<open>state.items.find\<close> aliases the first matching element of the array, so an
    assignment through it is \<open>modify_first\<close> on the list.
  \<^item> Every read of the clock (\<^verbatim>\<open>new Date().toISOString()\<close>) and every call of
    \<^verbatim>\<open>nanoid()\<close> is an argument of the function that makes it.
  \<^item> The fields of the payload types carry the prefix \<open>p_\<close>, those of the form values
    the prefix \<open>f_\<close>, because a record field name is global in a theory; the field
    \<^verbatim>\<open>id\<close> of a task is \<open>todo_id\<close>.
\<close>

subsection \<open>Numbers\<close>

text \<open>
  A JavaScript \<^verbatim>\<open>number\<close> is an IEEE 754 double, and \<^verbatim>\<open>a + b\<close> is the exact sum rounded
  to the nearest double, a tie going to the double with the even significand. The field
  \<^verbatim>\<open>order\<close> holds whole numbers (an integer, by section 3 of the specification); the type
  \<open>number\<close> has the whole numbers among the doubles, that is, the integers with at most 53
  significant bits. Fractions, infinities and NaN are left out, and so is the upper end of
  the exponent range (the largest double is near \<open>2 ^ 1024\<close>).

  \<open>ulp_exponent n\<close> is the number of low bits that a double cannot keep of \<open>n\<close>;
  \<open>round_to_even e n\<close> rounds \<open>n\<close> to the nearest multiple of \<open>2 ^ e\<close>, a tie going to the
  even multiple; \<open>fl\<close> rounds an integer to the nearest double.
\<close>

function ulp_exponent :: "nat \<Rightarrow> nat" where
  "ulp_exponent n = (if n < 2 ^ 53 then 0 else Suc (ulp_exponent (n div 2)))"
  by pat_completeness auto
termination
  by (relation "measure (\<lambda>n. n)") auto

declare ulp_exponent.simps [simp del]

definition round_to_even :: "nat \<Rightarrow> nat \<Rightarrow> nat" where
  "round_to_even e n =
     (let q = n div 2 ^ e; r = n mod 2 ^ e
      in if 2 * r < 2 ^ e then q * 2 ^ e
         else if 2 ^ e < 2 * r then (q + 1) * 2 ^ e
         else if even q then q * 2 ^ e
         else (q + 1) * 2 ^ e)"

definition fl_nat :: "nat \<Rightarrow> nat" where
  "fl_nat n = round_to_even (ulp_exponent n) n"

definition fl :: "int \<Rightarrow> int" where
  "fl i = (if i < 0 then - int (fl_nat (nat (- i))) else int (fl_nat (nat i)))"

definition double_nat :: "nat \<Rightarrow> bool" where
  "double_nat n = (\<exists>m e. n = m * 2 ^ e \<and> m < 2 ^ 53)"

definition double_int :: "int \<Rightarrow> bool" where
  "double_int i = double_nat (nat \<bar>i\<bar>)"

typedef number = "{i. double_int i}"
  morphisms val Abs_number
proof
  have "(0::nat) = 0 * 2 ^ 0 \<and> (0::nat) < 2 ^ 53" by simp
  then have "double_nat 0" unfolding double_nat_def by blast
  then show "0 \<in> {i. double_int i}" by (simp add: double_int_def)
qed

text \<open>\<open>Number i\<close> is the double nearest to the integer \<open>i\<close>; \<open>js_plus\<close> is \<^verbatim>\<open>+\<close>. Numbers
  compare as their values do, and \<^verbatim>\<open>Math.max\<close> on two of them is \<open>max\<close>.\<close>

definition Number :: "int \<Rightarrow> number" where
  "Number i = Abs_number (fl i)"

definition js_plus :: "number \<Rightarrow> number \<Rightarrow> number" where
  "js_plus a b = Abs_number (fl (val a + val b))"

instantiation number :: linorder
begin

definition less_eq_number :: "number \<Rightarrow> number \<Rightarrow> bool" where
  "less_eq_number a b = (val a \<le> val b)"

definition less_number :: "number \<Rightarrow> number \<Rightarrow> bool" where
  "less_number a b = (val a < val b)"

instance
  by standard (auto simp: less_eq_number_def less_number_def val_inject)

end

subsection \<open>Data model\<close>

datatype Priority = high | medium | low

datatype 'a nullable = Undefined | Null | Value 'a

record TodoItem =
  todo_id :: string
  title :: string
  description :: "string option"
  category :: "string option"
  priority :: Priority
  dueDate :: "string option"
  completed :: bool
  completedAt :: "string nullable"
  createdAt :: string
  order :: number

record TodosState =
  items :: "TodoItem list"
  lastUpdated :: "string option"

record CreateTodoPayload =
  p_title :: string
  p_description :: "string option"
  p_category :: "string option"
  p_priority :: Priority
  p_dueDate :: "string nullable"

record Changes = CreateTodoPayload +
  p_completed :: "bool option"

record UpdateTodoPayload =
  p_id :: string
  changes :: Changes

subsection \<open>Strings\<close>

text \<open>
  \<^verbatim>\<open>String.prototype.trim\<close> removes white space and line terminators from both ends.
  Among the code units below 256 these are TAB, LF, VT, FF, CR, SP and NBSP.
\<close>

definition is_ws :: "char \<Rightarrow> bool" where
  "is_ws c = (c \<in> {CHR 0x09, CHR 0x0A, CHR 0x0B, CHR 0x0C, CHR 0x0D, CHR 0x20, CHR 0xA0})"

definition trim :: "string \<Rightarrow> string" where
  "trim s = rev (dropWhile is_ws (rev (dropWhile is_ws s)))"

text \<open>\<^verbatim>\<open>x?.trim() ? x : undefined\<close>: an absent or blank text becomes absent, any other
  text is kept as it is (untrimmed).\<close>

definition blank_to_undefined :: "string option \<Rightarrow> string option" where
  "blank_to_undefined x =
     (case x of None \<Rightarrow> None | Some s \<Rightarrow> if trim s = [] then None else Some s)"

text \<open>\<^verbatim>\<open>x || undefined\<close> on a \<^verbatim>\<open>string | null | undefined\<close>: only a non-empty
  string is truthy.\<close>

definition or_undefined :: "string nullable \<Rightarrow> string option" where
  "or_undefined x = (case x of Value s \<Rightarrow> if s = [] then None else Some s | _ \<Rightarrow> None)"

subsection \<open>Arrays of tasks\<close>

text \<open>An assignment through the reference returned by \<^verbatim>\<open>find\<close>: the first element
  that satisfies \<open>P\<close> is replaced, the array is untouched when there is none.\<close>

fun modify_first :: "('a \<Rightarrow> bool) \<Rightarrow> ('a \<Rightarrow> 'a) \<Rightarrow> 'a list \<Rightarrow> 'a list" where
  "modify_first P f [] = []"
| "modify_first P f (x # xs) = (if P x then f x # xs else x # modify_first P f xs)"

text \<open>\<^verbatim>\<open>state.items.reduce((max, todo) => Math.max(max, todo.order), 0) + 1\<close>\<close>

definition nextOrder :: "TodoItem list \<Rightarrow> number" where
  "nextOrder xs = js_plus (foldl (\<lambda>mx todo. max mx (order todo)) (Number 0) xs) (Number 1)"

definition has_id :: "string \<Rightarrow> TodoItem \<Rightarrow> bool" where
  "has_id i item = (todo_id item = i)"

subsection \<open>The reducers\<close>

definition touchState :: "string \<Rightarrow> TodosState \<Rightarrow> TodosState" where
  "touchState now state = state\<lparr>lastUpdated := Some now\<rparr>"

text \<open>\<open>addTodo nid t_created t_touch\<close>: \<open>nid\<close> is the value of \<^verbatim>\<open>nanoid()\<close>, the two
  times are the two reads of the clock.\<close>

definition addTodo ::
  "string \<Rightarrow> string \<Rightarrow> string \<Rightarrow> TodosState \<Rightarrow> CreateTodoPayload \<Rightarrow> TodosState" where
  "addTodo nid t_created t_touch state payload =
     touchState t_touch
       (state\<lparr>items := items state @
          [\<lparr>todo_id = nid,
            title = p_title payload,
            description = blank_to_undefined (p_description payload),
            category = blank_to_undefined (p_category payload),
            priority = p_priority payload,
            dueDate = or_undefined (p_dueDate payload),
            completed = False,
            completedAt = Null,
            createdAt = t_created,
            order = nextOrder (items state)\<rparr>]\<rparr>)"

definition updateTodo ::
  "string \<Rightarrow> string \<Rightarrow> TodosState \<Rightarrow> UpdateTodoPayload \<Rightarrow> TodosState" where
  "updateTodo t_completed t_touch state payload =
     (case find (has_id (p_id payload)) (items state) of
        None \<Rightarrow> state
      | Some _ \<Rightarrow>
          let ch = changes payload;
              items1 = modify_first (has_id (p_id payload))
                (\<lambda>todo. todo\<lparr>title := p_title ch,
                              description := blank_to_undefined (p_description ch),
                              category := blank_to_undefined (p_category ch),
                              priority := p_priority ch,
                              dueDate := or_undefined (p_dueDate ch)\<rparr>) (items state);
              items2 =
                (case p_completed ch of
                   None \<Rightarrow> items1
                 | Some c \<Rightarrow>
                     let items_c = modify_first (has_id (p_id payload))
                           (\<lambda>todo. todo\<lparr>completed := c,
                                         completedAt := (if c then Value t_completed else Null)\<rparr>)
                           items1
                     in if \<not> c
                        then modify_first (has_id (p_id payload))
                               (\<lambda>todo. todo\<lparr>order := nextOrder items_c\<rparr>) items_c
                        else items_c)
          in touchState t_touch (state\<lparr>items := items2\<rparr>))"

definition toggleComplete :: "string \<Rightarrow> string \<Rightarrow> TodosState \<Rightarrow> string \<Rightarrow> TodosState" where
  "toggleComplete t_completed t_touch state payload =
     (case find (has_id payload) (items state) of
        None \<Rightarrow> state
      | Some todo0 \<Rightarrow>
          let c = \<not> completed todo0;
              items1 = modify_first (has_id payload)
                (\<lambda>todo. todo\<lparr>completed := c,
                              completedAt := (if c then Value t_completed else Null)\<rparr>)
                (items state);
              items2 =
                (if \<not> c
                 then modify_first (has_id payload)
                        (\<lambda>todo. todo\<lparr>order := nextOrder items1\<rparr>) items1
                 else items1)
          in touchState t_touch (state\<lparr>items := items2\<rparr>))"

definition deleteTodo :: "string \<Rightarrow> TodosState \<Rightarrow> string \<Rightarrow> TodosState" where
  "deleteTodo t_touch state payload =
     touchState t_touch
       (state\<lparr>items := filter (\<lambda>item. todo_id item \<noteq> payload) (items state)\<rparr>)"

text \<open>The \<^verbatim>\<open>forEach\<close> of \<^verbatim>\<open>reorderActive\<close>, with its running index.\<close>

fun reorder_each :: "string list \<Rightarrow> nat \<Rightarrow> TodoItem list \<Rightarrow> TodoItem list" where
  "reorder_each [] index xs = xs"
| "reorder_each (i # ids) index xs =
     reorder_each ids (index + 1)
       (modify_first (has_id i) (\<lambda>todo. todo\<lparr>order := js_plus (Number (int index)) (Number 1)\<rparr>) xs)"

definition reorderActive :: "string \<Rightarrow> TodosState \<Rightarrow> string list \<Rightarrow> TodosState" where
  "reorderActive t_touch state updatedIds =
     touchState t_touch (state\<lparr>items := reorder_each updatedIds 0 (items state)\<rparr>)"

subsection \<open>The initial state\<close>

text \<open>
  \<^verbatim>\<open>starterTodos\<close> and \<^verbatim>\<open>initialState\<close> are built when the module is loaded, from three
  calls of \<^verbatim>\<open>nanoid()\<close> and from the clock. A \<open>seed\<close> holds these values.
\<close>

record seed =
  id1 :: string
  id2 :: string
  id3 :: string
  due1 :: string
  due2 :: string
  created1 :: string
  created2 :: string
  created3 :: string
  completedAt3 :: string
  loaded :: string

definition starterTodos :: "seed \<Rightarrow> TodoItem list" where
  "starterTodos sd =
     [\<lparr>todo_id = id1 sd,
       title = ''Plan sprint backlog'',
       description = Some ''Review tasks for the week and assign ownership.'',
       category = Some ''Work'',
       priority = high,
       dueDate = Some (due1 sd),
       completed = False,
       completedAt = Null,
       createdAt = created1 sd,
       order = Number 1\<rparr>,
      \<lparr>todo_id = id2 sd,
       title = ''Grocery run'',
       description = Some ''Ingredients for the weekend dinner party.'',
       category = Some ''Personal'',
       priority = medium,
       dueDate = Some (due2 sd),
       completed = False,
       completedAt = Null,
       createdAt = created2 sd,
       order = Number 2\<rparr>,
      \<lparr>todo_id = id3 sd,
       title = ''Call mom'',
       description = Some [],
       category = Some ''Family'',
       priority = low,
       dueDate = None,
       completed = True,
       completedAt = Value (completedAt3 sd),
       createdAt = created3 sd,
       order = Number 3\<rparr>]"

definition initialState :: "seed \<Rightarrow> TodosState" where
  "initialState sd = \<lparr>items = starterTodos sd, lastUpdated = Some (loaded sd)\<rparr>"

text \<open>One concrete module initialisation, used to run the operations on.\<close>

definition seed0 :: seed where
  "seed0 = \<lparr>id1 = ''a'', id2 = ''b'', id3 = ''c'', due1 = ''d1'', due2 = ''d2'',
            created1 = ''t0'', created2 = ''t0'', created3 = ''t0'', completedAt3 = ''t0'',
            loaded = ''t0''\<rparr>"

subsection \<open>Dispatched actions\<close>

text \<open>
  An action as the store reduces it: the payload, together with the values that
  \<^verbatim>\<open>nanoid()\<close> and the clock return while the reducer runs.
\<close>

datatype action =
    AddTodo string string string CreateTodoPayload
  | UpdateTodo string string UpdateTodoPayload
  | ToggleComplete string string string
  | DeleteTodo string string
  | ReorderActive string "string list"

fun reducer :: "TodosState \<Rightarrow> action \<Rightarrow> TodosState" where
  "reducer state (AddTodo nid t_created t_touch payload) =
     addTodo nid t_created t_touch state payload"
| "reducer state (UpdateTodo t_completed t_touch payload) =
     updateTodo t_completed t_touch state payload"
| "reducer state (ToggleComplete t_completed t_touch payload) =
     toggleComplete t_completed t_touch state payload"
| "reducer state (DeleteTodo t_touch payload) = deleteTodo t_touch state payload"
| "reducer state (ReorderActive t_touch payload) = reorderActive t_touch state payload"

definition dispatch_all :: "TodosState \<Rightarrow> action list \<Rightarrow> TodosState" where
  "dispatch_all state acts = foldl reducer state acts"

subsection \<open>The id generator\<close>







subsection \<open>The form handler of the application\<close>


datatype exn = Thrown





subsection \<open>Persistence\<close>

text \<open>
  The store module reads and writes one slot of \<^verbatim>\<open>window.localStorage\<close>. A \<open>Window\<close>
  holds the slots and says whether the storage can be used at all (it throws on every
  access otherwise, as in a private mode); no window at all is \<open>None\<close>, which is
  \<^verbatim>\<open>isBrowser = false\<close>. \<^verbatim>\<open>JSON.parse\<close> and \<^verbatim>\<open>JSON.stringify\<close> belong to the
  runtime and are arguments; what they exchange with the program is a \<open>json\<close> value.
\<close>

datatype json =
    JNull
  | JBool bool
  | JNum number
  | JStr string
  | JArr "json list"
  | JObj "(string \<times> json) list"

record Window =
  storage_available :: bool
  localStorage :: "string \<rightharpoonup> string"

definition getItem :: "Window \<Rightarrow> string \<Rightarrow> exn + string option" where
  "getItem w k = (if storage_available w then Inr (localStorage w k) else Inl Thrown)"

definition setItem :: "Window \<Rightarrow> string \<Rightarrow> string \<Rightarrow> exn + Window" where
  "setItem w k v =
     (if storage_available w then Inr (w\<lparr>localStorage := (localStorage w)(k \<mapsto> v)\<rparr>)
      else Inl Thrown)"

definition STORAGE_KEY :: string where
  "STORAGE_KEY = ''dashboard-todos''"

record PersistedState =
  todos :: TodosState

text \<open>A task, a state and a persisted state as the object that \<^verbatim>\<open>JSON.stringify\<close>
  walks: a property whose value is \<^verbatim>\<open>undefined\<close> is left out, \<^verbatim>\<open>null\<close> is kept.\<close>

definition priority_name :: "Priority \<Rightarrow> string" where
  "priority_name p = (case p of high \<Rightarrow> ''high'' | medium \<Rightarrow> ''medium'' | low \<Rightarrow> ''low'')"

definition optional_prop :: "string \<Rightarrow> string option \<Rightarrow> (string \<times> json) list" where
  "optional_prop k v = (case v of None \<Rightarrow> [] | Some s \<Rightarrow> [(k, JStr s)])"

definition nullable_prop :: "string \<Rightarrow> string nullable \<Rightarrow> (string \<times> json) list" where
  "nullable_prop k v =
     (case v of Undefined \<Rightarrow> [] | Null \<Rightarrow> [(k, JNull)] | Value s \<Rightarrow> [(k, JStr s)])"

definition todo_object :: "TodoItem \<Rightarrow> json" where
  "todo_object t =
     JObj ([(''id'', JStr (todo_id t)), (''title'', JStr (title t))]
           @ optional_prop ''description'' (description t)
           @ optional_prop ''category'' (category t)
           @ [(''priority'', JStr (priority_name (priority t)))]
           @ optional_prop ''dueDate'' (dueDate t)
           @ [(''completed'', JBool (completed t))]
           @ nullable_prop ''completedAt'' (completedAt t)
           @ [(''createdAt'', JStr (createdAt t)), (''order'', JNum (order t))])"

definition state_object :: "TodosState \<Rightarrow> json" where
  "state_object s =
     JObj [(''items'', JArr (map todo_object (items s))),
           (''lastUpdated'', (case lastUpdated s of None \<Rightarrow> JNull | Some t \<Rightarrow> JStr t))]"

definition persisted_object :: "PersistedState \<Rightarrow> json" where
  "persisted_object p = JObj [(''todos'', state_object (todos p))]"

text \<open>
  The other direction: a parsed value read at the type \<^verbatim>\<open>PersistedState\<close>. The cast
  \<^verbatim>\<open>as PersistedState\<close> of the source checks nothing; \<open>None\<close> here says that the value
  does not have the declared shape.
\<close>

definition str_prop :: "(string \<times> json) list \<Rightarrow> string \<Rightarrow> string option" where
  "str_prop kv k = (case map_of kv k of Some (JStr s) \<Rightarrow> Some s | _ \<Rightarrow> None)"

definition bool_prop :: "(string \<times> json) list \<Rightarrow> string \<Rightarrow> bool option" where
  "bool_prop kv k = (case map_of kv k of Some (JBool b) \<Rightarrow> Some b | _ \<Rightarrow> None)"

definition num_prop :: "(string \<times> json) list \<Rightarrow> string \<Rightarrow> number option" where
  "num_prop kv k = (case map_of kv k of Some (JNum n) \<Rightarrow> Some n | _ \<Rightarrow> None)"

definition opt_str_prop :: "(string \<times> json) list \<Rightarrow> string \<Rightarrow> string option option" where
  "opt_str_prop kv k =
     (case map_of kv k of None \<Rightarrow> Some None | Some (JStr s) \<Rightarrow> Some (Some s) | _ \<Rightarrow> None)"

definition nullable_str_prop ::
  "(string \<times> json) list \<Rightarrow> string \<Rightarrow> string nullable option" where
  "nullable_str_prop kv k =
     (case map_of kv k of
        None \<Rightarrow> Some Undefined
      | Some JNull \<Rightarrow> Some Null
      | Some (JStr s) \<Rightarrow> Some (Value s)
      | _ \<Rightarrow> None)"

definition priority_of_name :: "string \<Rightarrow> Priority option" where
  "priority_of_name s =
     (if s = ''high'' then Some high else if s = ''medium'' then Some medium
      else if s = ''low'' then Some low else None)"

fun as_TodoItem :: "json \<Rightarrow> TodoItem option" where
  "as_TodoItem (JObj kv) =
     do {
       i \<leftarrow> str_prop kv ''id'';
       ti \<leftarrow> str_prop kv ''title'';
       de \<leftarrow> opt_str_prop kv ''description'';
       ca \<leftarrow> opt_str_prop kv ''category'';
       pn \<leftarrow> str_prop kv ''priority'';
       pr \<leftarrow> priority_of_name pn;
       du \<leftarrow> opt_str_prop kv ''dueDate'';
       co \<leftarrow> bool_prop kv ''completed'';
       cat \<leftarrow> nullable_str_prop kv ''completedAt'';
       cr \<leftarrow> str_prop kv ''createdAt'';
       n \<leftarrow> num_prop kv ''order'';
       Some \<lparr>todo_id = i, title = ti, description = de, category = ca, priority = pr,
             dueDate = du, completed = co, completedAt = cat, createdAt = cr, order = n\<rparr>
     }"
| "as_TodoItem _ = None"

fun all_some :: "'a option list \<Rightarrow> 'a list option" where
  "all_some [] = Some []"
| "all_some (x # xs) =
     (case x of None \<Rightarrow> None
      | Some y \<Rightarrow> (case all_some xs of None \<Rightarrow> None | Some ys \<Rightarrow> Some (y # ys)))"

fun as_TodosState :: "json \<Rightarrow> TodosState option" where
  "as_TodosState (JObj kv) =
     (case (map_of kv ''items'', map_of kv ''lastUpdated'') of
        (Some (JArr js), Some JNull) \<Rightarrow>
          map_option (\<lambda>ts. \<lparr>items = ts, lastUpdated = None\<rparr>) (all_some (map as_TodoItem js))
      | (Some (JArr js), Some (JStr t)) \<Rightarrow>
          map_option (\<lambda>ts. \<lparr>items = ts, lastUpdated = Some t\<rparr>) (all_some (map as_TodoItem js))
      | _ \<Rightarrow> None)"
| "as_TodosState _ = None"

fun as_PersistedState :: "json \<Rightarrow> PersistedState option" where
  "as_PersistedState (JObj kv) =
     (case map_of kv ''todos'' of
        Some j \<Rightarrow> map_option (\<lambda>s. \<lparr>todos = s\<rparr>) (as_TodosState j)
      | None \<Rightarrow> None)"
| "as_PersistedState _ = None"

definition loadState :: "(string \<Rightarrow> exn + json) \<Rightarrow> Window option \<Rightarrow> json option" where
  "loadState JSON_parse window =
     (case window of
        None \<Rightarrow> None
      | Some w \<Rightarrow>
          (case getItem w STORAGE_KEY of
             Inl _ \<Rightarrow> None
           | Inr serialized \<Rightarrow>
               (case serialized of
                  None \<Rightarrow> None
                | Some text \<Rightarrow>
                    if text = [] then None
                    else (case JSON_parse text of
                            Inl _ \<Rightarrow> None
                          | Inr parsed \<Rightarrow> Some parsed))))"

text \<open>\<open>saveState\<close> returns nothing; its effect is the window it leaves behind.\<close>

definition saveState ::
  "(json \<Rightarrow> exn + string) \<Rightarrow> Window option \<Rightarrow> PersistedState \<Rightarrow> Window option" where
  "saveState JSON_stringify window state =
     (case window of
        None \<Rightarrow> None
      | Some w \<Rightarrow>
          (case JSON_stringify (persisted_object state) of
             Inl _ \<Rightarrow> Some w
           | Inr serialized \<Rightarrow>
               (case setItem w STORAGE_KEY serialized of
                  Inl _ \<Rightarrow> Some w
                | Inr w' \<Rightarrow> Some w')))"

subsection \<open>Notions used in the statements\<close>

text \<open>A task is consistent when \<open>completedAt\<close> holds a time exactly if \<open>completed\<close> is
  set.\<close>

definition consistent :: "TodoItem \<Rightarrow> bool" where
  "consistent t = ((\<exists>ts. completedAt t = Value ts) = completed t)"

text \<open>What \<open>updateTodo\<close> and \<open>toggleComplete\<close> make of the task they find, \<open>next\<close> being
  the order computed by the \<^verbatim>\<open>reduce\<close>. The lemmas \<open>updateTodo_find\<close> and
  \<open>toggleComplete_find\<close> below derive them from the reducers.\<close>

definition updated :: "string \<Rightarrow> number \<Rightarrow> Changes \<Rightarrow> TodoItem \<Rightarrow> TodoItem" where
  "updated tc next ch t =
     (let t1 = t\<lparr>title := p_title ch,
                  description := blank_to_undefined (p_description ch),
                  category := blank_to_undefined (p_category ch),
                  priority := p_priority ch,
                  dueDate := or_undefined (p_dueDate ch)\<rparr>
      in (case p_completed ch of
            None \<Rightarrow> t1
          | Some c \<Rightarrow>
              if c then t1\<lparr>completed := True, completedAt := Value tc\<rparr>
              else t1\<lparr>completed := False, completedAt := Null, order := next\<rparr>))"

definition toggled :: "string \<Rightarrow> number \<Rightarrow> TodoItem \<Rightarrow> TodoItem" where
  "toggled tc next t =
     (if completed t
      then t\<lparr>completed := False, completedAt := Null, order := next\<rparr>
      else t\<lparr>completed := True, completedAt := Value tc\<rparr>)"

section \<open>Properties\<close>

subsection \<open>Rounding to a double\<close>

lemma ulp_exponent_upper: "n < 2 ^ (53 + ulp_exponent n)"
proof (induction n rule: ulp_exponent.induct)
  case (1 n)
  show ?case
  proof (cases "n < 2 ^ 53")
    case True
    then show ?thesis by (simp add: ulp_exponent.simps)
  next
    case False
    then have "n div 2 < 2 ^ (53 + ulp_exponent (n div 2))" by (rule 1)
    then have h: "n < 2 * 2 ^ (53 + ulp_exponent (n div 2))" by linarith
    have ue: "ulp_exponent n = Suc (ulp_exponent (n div 2))"
      using False by (simp add: ulp_exponent.simps[of n])
    show ?thesis unfolding ue add_Suc_right power_Suc using h .
  qed
qed

lemma ulp_exponent_lower: "0 < ulp_exponent n \<Longrightarrow> 2 ^ (52 + ulp_exponent n) \<le> n"
proof (induction n rule: ulp_exponent.induct)
  case (1 n)
  show ?case
  proof (cases "n < 2 ^ 53")
    case True
    then show ?thesis using 1(2) by (simp add: ulp_exponent.simps)
  next
    case False
    then have ue: "ulp_exponent n = Suc (ulp_exponent (n div 2))"
      by (simp add: ulp_exponent.simps[of n])
    show ?thesis
    proof (cases "ulp_exponent (n div 2)")
      case 0
      have "(2::nat) ^ (52 + Suc 0) = 2 ^ 53" by simp
      then show ?thesis using False unfolding ue 0 by linarith
    next
      case (Suc k)
      then have "2 ^ (52 + ulp_exponent (n div 2)) \<le> n div 2"
        using 1(1)[OF False] by simp
      then have h: "2 * 2 ^ (52 + ulp_exponent (n div 2)) \<le> n" by linarith
      show ?thesis unfolding ue add_Suc_right power_Suc using h .
    qed
  qed
qed

lemma ulp_exponent_small: "n < 2 ^ 53 \<Longrightarrow> ulp_exponent n = 0"
  by (simp add: ulp_exponent.simps)

lemma ulp_exponent_eq:
  assumes "0 < e" "2 ^ (52 + e) \<le> n" "n < 2 ^ (53 + e)"
  shows "ulp_exponent n = e"
proof (rule ccontr)
  assume ne: "ulp_exponent n \<noteq> e"
  let ?a = "ulp_exponent n"
  show False
  proof (cases "?a < e")
    case True
    then have "(2::nat) ^ (53 + ?a) \<le> 2 ^ (52 + e)" by (intro power_increasing) auto
    then show False using ulp_exponent_upper[of n] assms(2) by linarith
  next
    case False
    then have gt: "e < ?a" using ne by simp
    then have "(2::nat) ^ (53 + e) \<le> 2 ^ (52 + ?a)" by (intro power_increasing) auto
    moreover have "2 ^ (52 + ?a) \<le> n" using gt by (intro ulp_exponent_lower) simp
    ultimately show False using assms(3) by linarith
  qed
qed

lemma round_to_even_cases:
  "round_to_even e n = (n div 2 ^ e) * 2 ^ e \<or> round_to_even e n = (n div 2 ^ e + 1) * 2 ^ e"
  by (simp add: round_to_even_def Let_def)

lemma round_to_even_ge: "(n div 2 ^ e) * 2 ^ e \<le> round_to_even e n"
  using round_to_even_cases[of e n] by auto

lemma round_to_even_exact: "n mod 2 ^ e = 0 \<Longrightarrow> round_to_even e n = n"
  by (auto simp: round_to_even_def Let_def)

lemma mantissa_less: "n div 2 ^ ulp_exponent n < 2 ^ 53"
proof -
  have "n < 2 ^ 53 * 2 ^ ulp_exponent n"
    using ulp_exponent_upper[of n] by (simp add: power_add)
  then show ?thesis by (simp add: less_mult_imp_div_less)
qed

lemma double_nat_fl_nat: "double_nat (fl_nat n)"
proof -
  let ?e = "ulp_exponent n"
  let ?q = "n div 2 ^ ?e"
  have q: "?q < 2 ^ 53" by (rule mantissa_less)
  from round_to_even_cases[of ?e n] show ?thesis
  proof
    assume "round_to_even ?e n = ?q * 2 ^ ?e"
    then show ?thesis using q unfolding double_nat_def fl_nat_def by blast
  next
    assume r: "round_to_even ?e n = (?q + 1) * 2 ^ ?e"
    show ?thesis
    proof (cases "?q + 1 < 2 ^ 53")
      case True
      then show ?thesis using r unfolding double_nat_def fl_nat_def by blast
    next
      case False
      then have "?q + 1 = 2 ^ 53" using q by simp
      then have "round_to_even ?e n = 2 ^ 52 * 2 ^ (Suc ?e)" using r by simp
      moreover have "(2::nat) ^ 52 < 2 ^ 53" by simp
      ultimately show ?thesis unfolding double_nat_def fl_nat_def by blast
    qed
  qed
qed

lemma fl_nat_small: "n \<le> 2 ^ 53 \<Longrightarrow> fl_nat n = n"
proof (cases "n < 2 ^ 53")
  case True
  then show ?thesis by (simp add: fl_nat_def ulp_exponent_small round_to_even_def)
next
  case False
  assume "n \<le> 2 ^ 53"
  then have n: "n = 2 ^ 53" using False by simp
  have "ulp_exponent n = 1" unfolding n by (rule ulp_exponent_eq) simp_all
  then show ?thesis unfolding fl_nat_def n by (simp add: round_to_even_def)
qed

lemma fl_nat_succ_ge:
  assumes "double_nat M"
  shows "M \<le> fl_nat (M + 1)"
proof (cases "M + 1 \<le> 2 ^ 53")
  case True
  then show ?thesis by (simp add: fl_nat_small)
next
  case False
  then have big: "2 ^ 53 \<le> M" by simp
  define a where "a = ulp_exponent M"
  have a: "0 < a" using big by (simp add: a_def ulp_exponent.simps[of M])
  have lo: "2 ^ (52 + a) \<le> M" unfolding a_def by (rule ulp_exponent_lower) (use a a_def in simp)
  have hi: "M < 2 ^ (53 + a)" unfolding a_def by (rule ulp_exponent_upper)
  obtain m e where M: "M = m * 2 ^ e" and m: "m < 2 ^ 53"
    using assms unfolding double_nat_def by blast
  have ae: "a \<le> e"
  proof (rule ccontr)
    assume "\<not> a \<le> e"
    then have "Suc e \<le> a" by simp
    then have le: "(2::nat) ^ (53 + e) \<le> 2 ^ (52 + a)" by (intro power_increasing) auto
    have "m * 2 ^ e < 2 ^ 53 * 2 ^ e" using m by simp
    also have "\<dots> = 2 ^ (53 + e)" by (simp only: power_add)
    also have "\<dots> \<le> 2 ^ (52 + a)" by (rule le)
    finally have "m * 2 ^ e < 2 ^ (52 + a)" .
    then show False using lo M by linarith
  qed
  then obtain d where e: "e = a + d" using le_Suc_ex by blast
  define k where "k = m * 2 ^ d"
  have dvd: "M = k * 2 ^ a"
    by (simp only: M e k_def power_add mult.assoc mult.commute[of "2 ^ a"])
  have two: "(2::nat) \<le> 2 ^ a" using a by (cases a) simp_all
  have "k * 2 ^ a < 2 ^ 53 * 2 ^ a" using hi dvd by (simp only: power_add)
  then have "k < 2 ^ 53" by simp
  then have "k + 1 \<le> 2 ^ 53" by simp
  then have "(k + 1) * 2 ^ a \<le> 2 ^ 53 * 2 ^ a" by (rule mult_le_mono1)
  then have "M + 2 ^ a \<le> 2 ^ 53 * 2 ^ a" using dvd by (simp add: algebra_simps)
  then have "M + 2 ^ a \<le> 2 ^ (53 + a)" by (simp only: power_add)
  then have hi1: "M + 1 < 2 ^ (53 + a)" using two by linarith
  have lo1: "2 ^ (52 + a) \<le> M + 1" using lo by simp
  have ue: "ulp_exponent (M + 1) = a" by (rule ulp_exponent_eq[OF a lo1 hi1])
  have "(M + 1) div 2 ^ a = k"
  proof -
    have "(M + 1) div 2 ^ a = (1 + k * 2 ^ a) div 2 ^ a" using dvd by simp
    also have "\<dots> = k + 1 div 2 ^ a" by (rule div_mult_self1) simp
    also have "\<dots> = k" using two by simp
    finally show ?thesis .
  qed
  then have "M \<le> round_to_even a (M + 1)"
    using round_to_even_ge[of "M + 1" a] dvd by simp
  then show ?thesis unfolding fl_nat_def ue .
qed

lemma double_int_fl: "double_int (fl i)"
  by (simp add: fl_def double_int_def double_nat_fl_nat)

lemma fl_small: "\<bar>i\<bar> \<le> 2 ^ 53 \<Longrightarrow> fl i = i"
proof -
  assume a: "\<bar>i\<bar> \<le> 2 ^ 53"
  have "nat \<bar>i\<bar> \<le> 2 ^ 53" using a by (simp add: nat_le_iff)
  then have "fl_nat (nat \<bar>i\<bar>) = nat \<bar>i\<bar>" by (rule fl_nat_small)
  then show ?thesis by (cases "i < 0") (simp_all add: fl_def)
qed

lemma fl_succ_ge:
  assumes "double_int i" "0 \<le> i"
  shows "i \<le> fl (i + 1)"
proof -
  have "double_nat (nat i)" using assms by (simp add: double_int_def)
  then have "nat i \<le> fl_nat (nat i + 1)" by (rule fl_nat_succ_ge)
  moreover have "nat (i + 1) = nat i + 1" using assms(2) by simp
  ultimately show ?thesis using assms(2) by (simp add: fl_def)
qed

lemma double_int_val: "double_int (val x)"
  using val[of x] by simp

lemma val_Number: "val (Number i) = fl i"
  by (simp add: Number_def Abs_number_inverse double_int_fl)

lemma val_js_plus: "val (js_plus a b) = fl (val a + val b)"
  by (simp add: js_plus_def Abs_number_inverse double_int_fl)

lemma val_Number_small: "\<bar>i\<bar> \<le> 2 ^ 53 \<Longrightarrow> val (Number i) = i"
  by (simp add: val_Number fl_small)

lemma Number_eq_iff: "Number i = Number j \<longleftrightarrow> fl i = fl j"
  using val_inject[of "Number i" "Number j"] by (simp add: val_Number)

lemma Number_le_iff: "Number i \<le> Number j \<longleftrightarrow> fl i \<le> fl j"
  by (simp add: less_eq_number_def val_Number)

lemma Number_less_iff: "Number i < Number j \<longleftrightarrow> fl i < fl j"
  by (simp add: less_number_def val_Number)

lemma js_plus_Number: "js_plus (Number i) (Number j) = Number (fl i + fl j)"
proof -
  have "val (js_plus (Number i) (Number j)) = val (Number (fl i + fl j))"
    by (simp add: val_js_plus val_Number)
  then show ?thesis by (simp add: val_inject)
qed

text \<open>Adding one never goes down from a number that is not negative, and it is exact
  below \<open>2 ^ 53\<close>.\<close>

lemma plus_one_ge:
  assumes "Number 0 \<le> x"
  shows "x \<le> js_plus x (Number 1)"
proof -
  have "0 \<le> val x" using assms by (simp add: less_eq_number_def val_Number_small)
  then have "val x \<le> fl (val x + 1)" using double_int_val by (intro fl_succ_ge)
  moreover have "val (Number 1) = 1" by (rule val_Number_small) simp
  ultimately show ?thesis by (simp add: less_eq_number_def val_js_plus)
qed

lemma plus_one_greater:
  assumes "Number 0 \<le> x" and "x < Number (2 ^ 53)"
  shows "x < js_plus x (Number 1)"
proof -
  have 0: "0 \<le> val x" using assms(1) by (simp add: less_eq_number_def val_Number_small)
  have "val (Number (2 ^ 53)) = 2 ^ 53" by (rule val_Number_small) simp
  then have 1: "val x < 2 ^ 53" using assms(2) by (simp add: less_number_def)
  have "val (Number 1) = 1" by (rule val_Number_small) simp
  moreover have "fl (val x + 1) = val x + 1" using 0 1 by (intro fl_small) simp
  ultimately show ?thesis by (simp add: less_number_def val_js_plus)
qed

text \<open>The rules that compute with concrete numbers.\<close>

lemmas number_simps = Number_eq_iff Number_le_iff Number_less_iff js_plus_Number
  fl_def fl_nat_def round_to_even_def ulp_exponent.simps

subsection \<open>Lists and the first match\<close>

lemma find_None_modify_first:
  "find P xs = None \<Longrightarrow> modify_first P f xs = xs"
  by (induction xs) (auto split: if_splits)

lemma find_None_filter:
  "find P xs = None \<Longrightarrow> filter (\<lambda>x. \<not> P x) xs = xs"
  by (induction xs) (auto split: if_splits)

lemma find_Some_modify_first:
  "find P xs = Some t \<Longrightarrow> P (f t) \<Longrightarrow> find P (modify_first P f xs) = Some (f t)"
  by (induction xs) (auto split: if_splits)

lemma find_Some_holds: "find P xs = Some t \<Longrightarrow> P t \<and> t \<in> set xs"
  by (induction xs) (auto split: if_splits)

lemma modify_first_twice:
  "find P xs = Some t \<Longrightarrow> P (f t) \<Longrightarrow>
   modify_first P g (modify_first P f xs) = modify_first P (\<lambda>x. g (f x)) xs"
  by (induction xs) (auto split: if_splits)

lemma set_modify_first:
  "find P xs = Some t \<Longrightarrow> set (modify_first P f xs) \<subseteq> insert (f t) (set xs)"
  by (induction xs) (auto split: if_splits)

lemma modify_first_pred:
  "\<forall>x\<in>set xs. Q x \<Longrightarrow> (\<And>x. Q x \<Longrightarrow> Q (f x)) \<Longrightarrow> \<forall>x\<in>set (modify_first P f xs). Q x"
  by (induction xs) auto

lemma map_modify_first:
  "(\<And>x. h (f x) = h x) \<Longrightarrow> map h (modify_first P f xs) = map h xs"
  by (induction xs) auto

lemma foldl_max_order:
  "foldl (\<lambda>mx todo. max mx (order todo)) a xs = foldl max a (map order xs)"
  by (induction xs arbitrary: a) auto

lemma foldl_max_ge: "(a::'a::linorder) \<le> foldl max a ys"
proof (induction ys arbitrary: a)
  case Nil then show ?case by simp
next
  case (Cons z zs)
  have "a \<le> max a z" by simp
  also have "max a z \<le> foldl max (max a z) zs" by (rule Cons.IH)
  finally show ?case by simp
qed

lemma foldl_max_mem: "(y::'a::linorder) \<in> set ys \<Longrightarrow> y \<le> foldl max a ys"
proof (induction ys arbitrary: a)
  case Nil then show ?case by simp
next
  case (Cons z zs)
  show ?case
  proof (cases "y = z")
    case True
    have "z \<le> max a z" by simp
    also have "max a z \<le> foldl max (max a z) zs" by (rule foldl_max_ge)
    finally show ?thesis using True by simp
  next
    case False
    then show ?thesis using Cons by simp
  qed
qed

lemma foldl_max_less:
  "(a::'a::linorder) < b \<Longrightarrow> \<forall>y\<in>set ys. y < b \<Longrightarrow> foldl max a ys < b"
  by (induction ys arbitrary: a) simp_all

lemma nextOrder_modify_first:
  "(\<And>x. order (f x) = order x) \<Longrightarrow> nextOrder (modify_first P f xs) = nextOrder xs"
  by (simp add: nextOrder_def foldl_max_order map_modify_first)

text \<open>The order that the \<^verbatim>\<open>reduce\<close> computes is at least every order of the array, and
  above every one of them when they are all below \<open>2 ^ 53\<close>.\<close>

lemma order_le_nextOrder:
  assumes "t \<in> set xs"
  shows "order t \<le> nextOrder xs"
proof -
  let ?M = "foldl max (Number 0) (map order xs)"
  have "order t \<le> ?M" using assms by (intro foldl_max_mem) simp
  also have "?M \<le> js_plus ?M (Number 1)" by (intro plus_one_ge foldl_max_ge)
  finally show ?thesis by (simp add: nextOrder_def foldl_max_order)
qed

lemma order_less_nextOrder:
  assumes "\<forall>u\<in>set xs. order u < Number (2 ^ 53)" and "t \<in> set xs"
  shows "order t < nextOrder xs"
proof -
  let ?M = "foldl max (Number 0) (map order xs)"
  have "Number 0 < Number (2 ^ 53)" by (simp add: number_simps)
  then have "?M < Number (2 ^ 53)" using assms(1) by (intro foldl_max_less) simp_all
  then have "?M < js_plus ?M (Number 1)" by (intro plus_one_greater foldl_max_ge)
  moreover have "order t \<le> ?M" using assms(2) by (intro foldl_max_mem) simp
  ultimately show ?thesis by (simp add: nextOrder_def foldl_max_order)
qed

subsection \<open>Operations on an id that is not in the collection\<close>

text \<open>
  Claim C10. When no task of the collection has the given id, \<open>updateTodo\<close> and
  \<open>toggleComplete\<close> return the state they were given, \<open>lastUpdated\<close> included: they
  return before \<open>touchState\<close>. \<open>deleteTodo\<close> has no such return and always sets
  \<open>lastUpdated\<close> to the current time.
\<close>

theorem missing_id_update_toggle_unchanged:
  assumes "find (has_id i) (items state) = None"
  shows "updateTodo t_completed t_touch state \<lparr>p_id = i, changes = ch\<rparr> = state
       \<and> toggleComplete t_completed t_touch state i = state
       \<and> lastUpdated (deleteTodo t_touch state i) = Some t_touch"
  using assms by (simp add: updateTodo_def toggleComplete_def deleteTodo_def touchState_def)

theorem missing_id_update_toggle_witness:
  "find (has_id ''zz'') (items (initialState seed0)) = None
   \<and> updateTodo ''t1'' ''t2'' (initialState seed0)
         \<lparr>p_id = ''zz'',
           changes = \<lparr>p_title = ''Water plants'', p_description = None, p_category = None,
                      p_priority = low, p_dueDate = Undefined, p_completed = Some True\<rparr>\<rparr>
       = initialState seed0
   \<and> toggleComplete ''t1'' ''t2'' (initialState seed0) ''zz'' = initialState seed0
   \<and> lastUpdated (deleteTodo ''t2'' (initialState seed0) ''zz'') = Some ''t2''"
  using missing_id_update_toggle_unchanged[of "''zz''" "initialState seed0" "''t1''" "''t2''"
      "\<lparr>p_title = ''Water plants'', p_description = None, p_category = None,
        p_priority = low, p_dueDate = Undefined, p_completed = Some True\<rparr>"]
  by (simp add: initialState_def starterTodos_def seed0_def has_id_def)

text \<open>
  Claim C3, as amended. When no task of the collection has the given id, \<open>deleteTodo\<close>
  leaves the collection as it is and sets \<open>lastUpdated\<close> to the current time.
\<close>

theorem delete_missing_id:
  assumes "find (has_id i) (items state) = None"
  shows "items (deleteTodo t_touch state i) = items state
       \<and> lastUpdated (deleteTodo t_touch state i) = Some t_touch"
  using find_None_filter[OF assms] by (simp add: deleteTodo_def touchState_def has_id_def)

theorem delete_missing_id_witness:
  "find (has_id ''zz'') (items (initialState seed0)) = None
   \<and> items (deleteTodo ''t1'' (initialState seed0) ''zz'') = items (initialState seed0)
   \<and> lastUpdated (deleteTodo ''t1'' (initialState seed0) ''zz'') = Some ''t1''"
  using delete_missing_id[of "''zz''" "initialState seed0" "''t1''"]
  by (simp add: initialState_def starterTodos_def seed0_def has_id_def)

text \<open>
  The claim as it was written, with \<open>lastUpdated\<close> unchanged, fails on the initial state:
  no task has the id \<open>zz\<close>, and deleting it at time \<open>t1\<close> moves \<open>lastUpdated\<close> from
  \<open>t0\<close> to \<open>t1\<close>.
\<close>

theorem delete_missing_id_counterexample:
  "find (has_id ''zz'') (items (initialState seed0)) = None
   \<and> lastUpdated (deleteTodo ''t1'' (initialState seed0) ''zz'') \<noteq> lastUpdated (initialState seed0)"
  by (simp add: initialState_def starterTodos_def seed0_def has_id_def deleteTodo_def touchState_def)

subsection \<open>completedAt and completed\<close>

lemma reorder_each_pred:
  "\<forall>x\<in>set xs. Q x \<Longrightarrow> (\<And>x n. Q x \<Longrightarrow> Q (x\<lparr>order := n\<rparr>)) \<Longrightarrow>
   \<forall>x\<in>set (reorder_each ids k xs). Q x"
proof (induction ids arbitrary: k xs)
  case Nil then show ?case by simp
next
  case (Cons i ids)
  have "\<forall>x\<in>set (modify_first (has_id i) (\<lambda>todo. todo\<lparr>order := js_plus (Number (int k)) (Number 1)\<rparr>) xs). Q x"
    using Cons.prems by (intro modify_first_pred) auto
  then show ?case using Cons.IH Cons.prems(2) by simp
qed

lemma addTodo_consistent:
  "\<forall>t\<in>set (items s). consistent t \<Longrightarrow> \<forall>t\<in>set (items (addTodo nid tc tt s p)). consistent t"
  by (auto simp: addTodo_def touchState_def consistent_def)

lemma updateTodo_consistent:
  assumes "\<forall>t\<in>set (items s). consistent t"
  shows "\<forall>t\<in>set (items (updateTodo tc tt s p)). consistent t"
proof (cases "find (has_id (p_id p)) (items s)")
  case None
  then show ?thesis using assms by (simp add: updateTodo_def)
next
  case (Some a)
  let ?P = "has_id (p_id p)"
  let ?f = "\<lambda>todo. todo\<lparr>title := p_title (changes p),
              description := blank_to_undefined (p_description (changes p)),
              category := blank_to_undefined (p_category (changes p)),
              priority := p_priority (changes p),
              dueDate := or_undefined (p_dueDate (changes p))\<rparr>"
  have 1: "\<forall>t\<in>set (modify_first ?P ?f (items s)). consistent t"
    using assms by (intro modify_first_pred) (auto simp: consistent_def)
  show ?thesis
  proof (cases "p_completed (changes p)")
    case None
    then show ?thesis using Some 1 by (simp add: updateTodo_def touchState_def Let_def)
  next
    case (Some c)
    let ?g = "\<lambda>todo. todo\<lparr>completed := c, completedAt := (if c then Value tc else Null)\<rparr>"
    have 2: "\<forall>t\<in>set (modify_first ?P ?g (modify_first ?P ?f (items s))). consistent t"
      by (rule modify_first_pred[OF 1]) (auto simp: consistent_def)
    have 3: "\<forall>t\<in>set (modify_first ?P (\<lambda>todo. todo\<lparr>order := n\<rparr>)
                 (modify_first ?P ?g (modify_first ?P ?f (items s)))). consistent t" for n
      by (rule modify_first_pred[OF 2]) (auto simp: consistent_def)
    show ?thesis using \<open>find ?P (items s) = Some a\<close> Some 2 3
      by (simp add: updateTodo_def touchState_def Let_def)
  qed
qed

lemma toggleComplete_consistent:
  assumes "\<forall>t\<in>set (items s). consistent t"
  shows "\<forall>t\<in>set (items (toggleComplete tc tt s i)). consistent t"
proof (cases "find (has_id i) (items s)")
  case None
  then show ?thesis using assms by (simp add: toggleComplete_def)
next
  case (Some a)
  let ?P = "has_id i"
  let ?g = "\<lambda>todo. todo\<lparr>completed := \<not> completed a,
                  completedAt := (if \<not> completed a then Value tc else Null)\<rparr>"
  have 2: "\<forall>t\<in>set (modify_first ?P ?g (items s)). consistent t"
    using assms by (intro modify_first_pred) (auto simp: consistent_def)
  have 3: "\<forall>t\<in>set (modify_first ?P (\<lambda>todo. todo\<lparr>order := n\<rparr>)
               (modify_first ?P ?g (items s))). consistent t" for n
    by (rule modify_first_pred[OF 2]) (auto simp: consistent_def)
  show ?thesis using Some 2 3
    by (simp add: toggleComplete_def touchState_def Let_def)
qed

lemma deleteTodo_consistent:
  "\<forall>t\<in>set (items s). consistent t \<Longrightarrow> \<forall>t\<in>set (items (deleteTodo tt s i)). consistent t"
  by (simp add: deleteTodo_def touchState_def)

lemma reorderActive_consistent:
  assumes "\<forall>t\<in>set (items s). consistent t"
  shows "\<forall>t\<in>set (items (reorderActive tt s ids)). consistent t"
proof -
  have "\<forall>t\<in>set (reorder_each ids 0 (items s)). consistent t"
    using assms by (intro reorder_each_pred) (auto simp: consistent_def)
  then show ?thesis by (simp add: reorderActive_def touchState_def)
qed

lemma reducer_consistent:
  assumes "\<forall>t\<in>set (items s). consistent t"
  shows "\<forall>t\<in>set (items (reducer s a)). consistent t"
proof (cases a)
  case (AddTodo nid tc tt p)
  then show ?thesis using addTodo_consistent[OF assms] by simp
next
  case (UpdateTodo tc tt p)
  then show ?thesis using updateTodo_consistent[OF assms] by simp
next
  case (ToggleComplete tc tt i)
  then show ?thesis using toggleComplete_consistent[OF assms] by simp
next
  case (DeleteTodo tt i)
  then show ?thesis using deleteTodo_consistent[OF assms] by simp
next
  case (ReorderActive tt ids)
  then show ?thesis using reorderActive_consistent[OF assms] by simp
qed

lemma dispatch_all_consistent:
  "\<forall>t\<in>set (items s). consistent t \<Longrightarrow> \<forall>t\<in>set (items (dispatch_all s acts)). consistent t"
  unfolding dispatch_all_def
proof (induction acts arbitrary: s)
  case Nil
  then show ?case by simp
next
  case (Cons a acts)
  have "\<forall>t\<in>set (items (reducer s a)). consistent t"
    using Cons.prems by (rule reducer_consistent)
  then show ?case using Cons.IH by simp
qed

lemma initialState_consistent: "\<forall>t\<in>set (items (initialState sd)). consistent t"
  by (simp add: initialState_def starterTodos_def consistent_def)

text \<open>
  Claim C2. In every state that the store reaches from \<open>initialState\<close> by dispatching
  actions (add, update, toggle, delete, reorder, in any number and order), each task has a
  time in \<open>completedAt\<close> if and only if its \<open>completed\<close> flag is set.
\<close>

theorem completedAt_iff_completed:
  assumes "t \<in> set (items (dispatch_all (initialState sd) acts))"
  shows "(\<exists>ts. completedAt t = Value ts) = completed t"
  using dispatch_all_consistent[OF initialState_consistent, of sd acts] assms
  by (simp add: consistent_def)

subsection \<open>ids\<close>












subsection \<open>The task that an update or a toggle finds\<close>

lemma updateTodo_found:
  assumes "find (has_id (p_id p)) (items s) = Some todo"
  shows "items (updateTodo tc tt s p) =
     modify_first (has_id (p_id p))
       (\<lambda>t. let t1 = t\<lparr>title := p_title (changes p),
                        description := blank_to_undefined (p_description (changes p)),
                        category := blank_to_undefined (p_category (changes p)),
                        priority := p_priority (changes p),
                        dueDate := or_undefined (p_dueDate (changes p))\<rparr>
            in (case p_completed (changes p) of
                  None \<Rightarrow> t1
                | Some c \<Rightarrow>
                    if c then t1\<lparr>completed := True, completedAt := Value tc\<rparr>
                    else t1\<lparr>completed := False, completedAt := Null,
                           order := nextOrder (items s)\<rparr>))
       (items s)"
proof -
  let ?P = "has_id (p_id p)"
  let ?f = "\<lambda>t. t\<lparr>title := p_title (changes p),
                  description := blank_to_undefined (p_description (changes p)),
                  category := blank_to_undefined (p_category (changes p)),
                  priority := p_priority (changes p),
                  dueDate := or_undefined (p_dueDate (changes p))\<rparr>"
  have P: "?P todo" using find_Some_holds[OF assms] by simp
  then have Pf: "?P (?f todo)" by (simp add: has_id_def)
  have f1: "find ?P (modify_first ?P ?f (items s)) = Some (?f todo)"
    using find_Some_modify_first[where f="?f", OF assms Pf] .
  show ?thesis
  proof (cases "p_completed (changes p)")
    case None
    then show ?thesis using assms by (simp add: updateTodo_def touchState_def Let_def)
  next
    case (Some c)
    let ?g = "\<lambda>t. t\<lparr>completed := c, completedAt := (if c then Value tc else Null)\<rparr>"
    have Pg: "?P (?g (?f todo))" using P by (simp add: has_id_def)
    have two: "modify_first ?P ?g (modify_first ?P ?f (items s))
               = modify_first ?P (\<lambda>x. ?g (?f x)) (items s)"
      using modify_first_twice[where f="?f" and g="?g", OF assms Pf] .
    have n: "nextOrder (modify_first ?P (\<lambda>x. ?g (?f x)) (items s)) = nextOrder (items s)"
      by (rule nextOrder_modify_first) simp
    have Pgf: "?P ((\<lambda>x. ?g (?f x)) todo)" using P by (simp add: has_id_def)
    have three: "modify_first ?P (\<lambda>t. t\<lparr>order := k\<rparr>) (modify_first ?P (\<lambda>x. ?g (?f x)) (items s))
               = modify_first ?P (\<lambda>x. (?g (?f x))\<lparr>order := k\<rparr>) (items s)" for k
      using modify_first_twice[where f="\<lambda>x. ?g (?f x)" and g="\<lambda>t. t\<lparr>order := k\<rparr>", OF assms Pgf]
      by simp
    show ?thesis
    proof (cases c)
      case True
      then show ?thesis using assms Some two
        by (simp add: updateTodo_def touchState_def Let_def)
    next
      case False
      then show ?thesis using assms Some two n three
        by (simp add: updateTodo_def touchState_def Let_def)
    qed
  qed
qed

lemma toggleComplete_found:
  assumes "find (has_id i) (items s) = Some todo"
  shows "items (toggleComplete tc tt s i) =
     modify_first (has_id i)
       (\<lambda>t. if completed todo
            then t\<lparr>completed := False, completedAt := Null, order := nextOrder (items s)\<rparr>
            else t\<lparr>completed := True, completedAt := Value tc\<rparr>)
       (items s)"
proof -
  let ?P = "has_id i"
  let ?g = "\<lambda>t. t\<lparr>completed := \<not> completed todo,
                  completedAt := (if \<not> completed todo then Value tc else Null)\<rparr>"
  have P: "?P todo" using find_Some_holds[OF assms] by simp
  then have Pg: "?P (?g todo)" by (simp add: has_id_def)
  have n: "nextOrder (modify_first ?P ?g (items s)) = nextOrder (items s)"
    by (rule nextOrder_modify_first) simp
  have two: "modify_first ?P (\<lambda>t. t\<lparr>order := k\<rparr>) (modify_first ?P ?g (items s))
             = modify_first ?P (\<lambda>x. (?g x)\<lparr>order := k\<rparr>) (items s)" for k
    using modify_first_twice[where f="?g" and g="\<lambda>t. t\<lparr>order := k\<rparr>", OF assms Pg] by simp
  show ?thesis
  proof (cases "completed todo")
    case True
    then show ?thesis using assms n two
      by (simp add: toggleComplete_def touchState_def Let_def)
  next
    case False
    then show ?thesis using assms
      by (simp add: toggleComplete_def touchState_def Let_def)
  qed
qed

lemma has_id_updated: "has_id i (updated tc n ch t) = has_id i t"
  by (simp add: updated_def has_id_def Let_def split: option.splits)

lemma has_id_toggled: "has_id i (toggled tc n t) = has_id i t"
  by (simp add: toggled_def has_id_def)

lemma updateTodo_items:
  assumes "find (has_id (p_id p)) (items s) = Some todo"
  shows "items (updateTodo tc tt s p) =
         modify_first (has_id (p_id p)) (updated tc (nextOrder (items s)) (changes p)) (items s)"
  unfolding updateTodo_found[OF assms] updated_def ..

lemma toggleComplete_items:
  assumes "find (has_id i) (items s) = Some todo"
  shows "items (toggleComplete tc tt s i) =
         modify_first (has_id i) (\<lambda>t. if completed todo
            then t\<lparr>completed := False, completedAt := Null, order := nextOrder (items s)\<rparr>
            else t\<lparr>completed := True, completedAt := Value tc\<rparr>) (items s)"
  by (rule toggleComplete_found[OF assms])

lemma updateTodo_find:
  assumes "find (has_id (p_id p)) (items s) = Some todo"
  shows "find (has_id (p_id p)) (items (updateTodo tc tt s p))
         = Some (updated tc (nextOrder (items s)) (changes p) todo)"
proof -
  have "has_id (p_id p) todo" using find_Some_holds[OF assms] by simp
  then have "has_id (p_id p) (updated tc (nextOrder (items s)) (changes p) todo)"
    by (simp add: has_id_updated)
  from find_Some_modify_first[where f="updated tc (nextOrder (items s)) (changes p)", OF assms this]
  show ?thesis by (simp add: updateTodo_items[OF assms])
qed

lemma toggleComplete_find:
  assumes "find (has_id i) (items s) = Some todo"
  shows "find (has_id i) (items (toggleComplete tc tt s i))
         = Some (toggled tc (nextOrder (items s)) todo)"
proof -
  let ?h = "\<lambda>t. if completed todo
            then t\<lparr>completed := False, completedAt := Null, order := nextOrder (items s)\<rparr>
            else t\<lparr>completed := True, completedAt := Value tc\<rparr>"
  have "has_id i todo" using find_Some_holds[OF assms] by simp
  then have "has_id i (?h todo)" by (simp add: has_id_def)
  from find_Some_modify_first[where f="?h", OF assms this]
  show ?thesis by (simp add: toggleComplete_items[OF assms] toggled_def)
qed

lemma updateTodo_set:
  assumes "find (has_id (p_id p)) (items s) = Some todo"
  shows "set (items (updateTodo tc tt s p))
         \<subseteq> insert (updated tc (nextOrder (items s)) (changes p) todo) (set (items s))"
  using set_modify_first[where f="updated tc (nextOrder (items s)) (changes p)", OF assms]
  by (simp add: updateTodo_items[OF assms])

lemma toggleComplete_set:
  assumes "find (has_id i) (items s) = Some todo"
  shows "set (items (toggleComplete tc tt s i))
         \<subseteq> insert (toggled tc (nextOrder (items s)) todo) (set (items s))"
proof -
  let ?h = "\<lambda>t. if completed todo
            then t\<lparr>completed := False, completedAt := Null, order := nextOrder (items s)\<rparr>
            else t\<lparr>completed := True, completedAt := Value tc\<rparr>"
  have "?h todo = toggled tc (nextOrder (items s)) todo" by (simp add: toggled_def)
  then show ?thesis
    using set_modify_first[where f="?h", OF assms]
    by (simp add: toggleComplete_items[OF assms])
qed

lemma toggleComplete_orders:
  assumes "find (has_id i) (items s) = Some todo" "\<not> completed todo"
  shows "map order (items (toggleComplete tc tt s i)) = map order (items s)"
  using assms(2) by (simp add: toggleComplete_items[OF assms(1)] map_modify_first)

text \<open>
  Claim C4, as amended. When \<open>updateTodo\<close> finds the task and the payload provides
  \<open>completed\<close>, the order of the task afterwards is \<open>nextOrder\<close> of the collection (one
  more, in the addition of doubles, than the largest of 0 and all orders) if the provided
  value is \<open>false\<close>, whatever the task was before, and its previous order if the provided
  value is \<open>true\<close>.
\<close>

theorem updateTodo_order:
  assumes "find (has_id i) (items state) = Some todo" and "p_completed ch = Some c"
  shows "map_option order
           (find (has_id i)
              (items (updateTodo t_completed t_touch state \<lparr>p_id = i, changes = ch\<rparr>)))
         = Some (if c then order todo else nextOrder (items state))"
proof -
  have "find (has_id i)
          (items (updateTodo t_completed t_touch state \<lparr>p_id = i, changes = ch\<rparr>))
        = Some (updated t_completed (nextOrder (items state)) ch todo)"
    using updateTodo_find[of "\<lparr>p_id = i, changes = ch\<rparr>" state todo t_completed t_touch] assms(1)
    by simp
  moreover have "order (updated t_completed (nextOrder (items state)) ch todo)
        = (if c then order todo else nextOrder (items state))"
    using assms(2) by (simp add: updated_def)
  ultimately show ?thesis by simp
qed

text \<open>
  Claim C5, as amended. A completed task that is made active again, by \<open>toggleComplete\<close>
  or by \<open>updateTodo\<close> with \<open>completed = false\<close>, gets an order that is at least the order
  of every task of the collection. When every order of the collection is below \<open>2 ^ 53\<close>,
  the new order is strictly above the order of every other task.
\<close>

theorem uncompleted_task_order:
  assumes "find (has_id i) (items state) = Some todo" and "completed todo"
    and "p_completed ch = Some False"
    and "state' = toggleComplete tc tt state i
         \<or> state' = updateTodo tc tt state \<lparr>p_id = i, changes = ch\<rparr>"
  shows "\<exists>todo'. find (has_id i) (items state') = Some todo'
           \<and> \<not> completed todo'
           \<and> order todo' = nextOrder (items state)
           \<and> (\<forall>u\<in>set (items state'). order u \<le> order todo')
           \<and> ((\<forall>u\<in>set (items state). order u < Number (2 ^ 53))
                \<longrightarrow> (\<forall>u\<in>set (items state'). u \<noteq> todo' \<longrightarrow> order u < order todo'))"
proof -
  define todo' where "todo' =
    (if state' = toggleComplete tc tt state i then toggled tc (nextOrder (items state)) todo
     else updated tc (nextOrder (items state)) ch todo)"
  have f: "find (has_id i) (items state') = Some todo'"
    using assms(4) toggleComplete_find[OF assms(1), of tc tt]
      updateTodo_find[of "\<lparr>p_id = i, changes = ch\<rparr>" state todo tc tt] assms(1)
    by (auto simp: todo'_def)
  have sub: "set (items state') \<subseteq> insert todo' (set (items state))"
    using assms(4) toggleComplete_set[OF assms(1), of tc tt]
      updateTodo_set[of "\<lparr>p_id = i, changes = ch\<rparr>" state todo tc tt] assms(1)
    by (auto simp: todo'_def)
  have c: "\<not> completed todo'" and o: "order todo' = nextOrder (items state)"
    using assms(2,3) by (simp_all add: todo'_def toggled_def updated_def)
  have old: "\<forall>u\<in>set (items state). order u \<le> order todo'"
    using order_le_nextOrder o by simp
  have le: "\<forall>u\<in>set (items state'). order u \<le> order todo'"
    using sub old by auto
  have lt: "\<forall>u\<in>set (items state'). u \<noteq> todo' \<longrightarrow> order u < order todo'"
    if safe: "\<forall>u\<in>set (items state). order u < Number (2 ^ 53)"
  proof -
    have "\<forall>u\<in>set (items state). order u < order todo'"
      using order_less_nextOrder[OF safe] o by simp
    then show ?thesis using sub by auto
  qed
  show ?thesis using f c o le lt by blast
qed

text \<open>
  Claim C6, as amended. After two \<open>toggleComplete\<close> on a task of the collection, its
  \<open>completed\<close> flag is what it was, its order is at least what it was, and its
  \<open>completedAt\<close> is \<open>null\<close> if the task was active before the first toggle and the time
  of the second toggle if it was completed.
\<close>

theorem toggle_twice:
  assumes "find (has_id i) (items state) = Some todo"
  shows "\<exists>todo'. find (has_id i)
                   (items (toggleComplete tc2 tt2 (toggleComplete tc1 tt1 state i) i))
                 = Some todo'
           \<and> completed todo' = completed todo
           \<and> order todo \<le> order todo'
           \<and> completedAt todo' = (if completed todo then Value tc2 else Null)"
proof -
  let ?s1 = "toggleComplete tc1 tt1 state i"
  let ?t1 = "toggled tc1 (nextOrder (items state)) todo"
  let ?t2 = "toggled tc2 (nextOrder (items ?s1)) ?t1"
  have mem: "todo \<in> set (items state)" using find_Some_holds[OF assms] by simp
  have le: "order todo \<le> nextOrder (items state)" by (rule order_le_nextOrder[OF mem])
  have f1: "find (has_id i) (items ?s1) = Some ?t1" by (rule toggleComplete_find[OF assms])
  have f2: "find (has_id i) (items (toggleComplete tc2 tt2 ?s1 i)) = Some ?t2"
    by (rule toggleComplete_find[OF f1])
  have mem1: "?t1 \<in> set (items ?s1)" using find_Some_holds[OF f1] by simp
  have le1: "order ?t1 \<le> nextOrder (items ?s1)" by (rule order_le_nextOrder[OF mem1])
  have "completed ?t2 = completed todo" by (simp add: toggled_def)
  moreover have "order todo \<le> order ?t2"
  proof (cases "completed todo")
    case True
    then show ?thesis using le by (simp add: toggled_def)
  next
    case False
    then have "order ?t1 = order todo" by (simp add: toggled_def)
    moreover from False have "order ?t2 = nextOrder (items ?s1)" by (simp add: toggled_def)
    ultimately show ?thesis using le1 by simp
  qed
  moreover have "completedAt ?t2 = (if completed todo then Value tc2 else Null)"
    by (simp add: toggled_def)
  ultimately show ?thesis using f2 by blast
qed

subsection \<open>Saving and loading\<close>

text \<open>Reading the object of a task, of a state and of a persisted state back at its type
  gives the task, the state and the persisted state.\<close>

lemma map_of_optional_prop:
  "(m ++ map_of (optional_prop k v)) k' =
     (if k' = k then (case v of None \<Rightarrow> m k' | Some s \<Rightarrow> Some (JStr s)) else m k')"
  by (simp add: optional_prop_def map_add_def split: option.splits)

lemma map_of_nullable_prop:
  "(m ++ map_of (nullable_prop k v)) k' =
     (if k' = k
      then (case v of Undefined \<Rightarrow> m k' | Null \<Rightarrow> Some JNull | Value s \<Rightarrow> Some (JStr s))
      else m k')"
  by (simp add: nullable_prop_def map_add_def split: nullable.splits)

lemma priority_of_name_priority_name: "priority_of_name (priority_name p) = Some p"
  by (cases p) (simp_all add: priority_of_name_def priority_name_def)

lemma todo_object_id: "todo_object t = JObj kv \<Longrightarrow> str_prop kv ''id'' = Some (todo_id t)"
  by (auto simp: todo_object_def str_prop_def)

lemma todo_object_title: "todo_object t = JObj kv \<Longrightarrow> str_prop kv ''title'' = Some (title t)"
  by (auto simp: todo_object_def str_prop_def)

lemma todo_object_description:
  "todo_object t = JObj kv \<Longrightarrow> opt_str_prop kv ''description'' = Some (description t)"
  by (cases "description t")
     (auto simp: todo_object_def opt_str_prop_def map_of_optional_prop map_of_nullable_prop)

lemma todo_object_category:
  "todo_object t = JObj kv \<Longrightarrow> opt_str_prop kv ''category'' = Some (category t)"
  by (cases "category t")
     (auto simp: todo_object_def opt_str_prop_def map_of_optional_prop map_of_nullable_prop)

lemma todo_object_priority:
  "todo_object t = JObj kv \<Longrightarrow> str_prop kv ''priority'' = Some (priority_name (priority t))"
  by (auto simp: todo_object_def str_prop_def map_of_optional_prop)

lemma todo_object_dueDate:
  "todo_object t = JObj kv \<Longrightarrow> opt_str_prop kv ''dueDate'' = Some (dueDate t)"
  by (cases "dueDate t")
     (auto simp: todo_object_def opt_str_prop_def map_of_optional_prop map_of_nullable_prop)

lemma todo_object_completed:
  "todo_object t = JObj kv \<Longrightarrow> bool_prop kv ''completed'' = Some (completed t)"
  by (auto simp: todo_object_def bool_prop_def map_of_optional_prop)

lemma todo_object_completedAt:
  "todo_object t = JObj kv \<Longrightarrow> nullable_str_prop kv ''completedAt'' = Some (completedAt t)"
  by (cases "completedAt t")
     (auto simp: todo_object_def nullable_str_prop_def map_of_optional_prop map_of_nullable_prop)

lemma todo_object_createdAt:
  "todo_object t = JObj kv \<Longrightarrow> str_prop kv ''createdAt'' = Some (createdAt t)"
  by (auto simp: todo_object_def str_prop_def map_of_optional_prop map_of_nullable_prop)

lemma todo_object_order:
  "todo_object t = JObj kv \<Longrightarrow> num_prop kv ''order'' = Some (order t)"
  by (auto simp: todo_object_def num_prop_def map_of_optional_prop map_of_nullable_prop)

lemma as_TodoItem_todo_object: "as_TodoItem (todo_object t) = Some t"
proof -
  obtain kv where kv: "todo_object t = JObj kv" by (simp add: todo_object_def)
  show ?thesis
    unfolding kv
    by (simp add: todo_object_id[OF kv] todo_object_title[OF kv] todo_object_description[OF kv]
          todo_object_category[OF kv] todo_object_priority[OF kv] todo_object_dueDate[OF kv]
          todo_object_completed[OF kv] todo_object_completedAt[OF kv]
          todo_object_createdAt[OF kv] todo_object_order[OF kv]
          priority_of_name_priority_name)
qed

lemma all_some_todo_objects: "all_some (map (as_TodoItem \<circ> todo_object) xs) = Some xs"
  by (induction xs) (simp_all add: as_TodoItem_todo_object)

lemma as_TodosState_state_object: "as_TodosState (state_object s) = Some s"
proof (cases s)
  case (fields xs lu)
  then show ?thesis
    by (cases lu) (simp_all add: state_object_def all_some_todo_objects)
qed

lemma as_PersistedState_persisted_object: "as_PersistedState (persisted_object p) = Some p"
  by (simp add: persisted_object_def as_TodosState_state_object)

text \<open>When \<open>loadState\<close> returns \<^verbatim>\<open>undefined\<close>, and what it returns otherwise.\<close>

lemma loadState_undefined:
  assumes "window = None
      \<or> (\<exists>w. window = Some w
            \<and> (\<not> storage_available w
                \<or> localStorage w STORAGE_KEY = None
                \<or> localStorage w STORAGE_KEY = Some []
                \<or> (\<exists>text e. localStorage w STORAGE_KEY = Some text \<and> JSON_parse text = Inl e)))"
  shows "loadState JSON_parse window = None"
  using assms by (auto simp: loadState_def getItem_def split: option.splits sum.splits)

lemma loadState_parsed:
  assumes "storage_available w" and "localStorage w STORAGE_KEY = Some text" and "text \<noteq> []"
    and "JSON_parse text = Inr parsed"
  shows "loadState JSON_parse (Some w) = Some parsed"
  using assms by (simp add: loadState_def getItem_def)

text \<open>
  Claim C7. The claim asks for "no prior state" whenever the content of the slot does not
  parse as a persisted state. \<open>loadState\<close> does not do this for a text that is JSON of
  another shape. With \<^verbatim>\<open>{"todos":5}\<close> in the slot, and with \<^verbatim>\<open>null\<close> in the slot,
  \<^verbatim>\<open>JSON.parse\<close> succeeds, the value is not of the type \<^verbatim>\<open>PersistedState\<close>, and
  \<open>loadState\<close> returns it instead of \<^verbatim>\<open>undefined\<close>.
\<close>

theorem loadState_returns_wrong_shape:
  \<open>as_PersistedState (JObj [(''todos'', JNum (Number 5))]) = None
   \<and> loadState
        (\<lambda>text. if text = ''{"todos":5}'' then Inr (JObj [(''todos'', JNum (Number 5))])
                else if text = ''null'' then Inr JNull else Inl Thrown)
        (Some \<lparr>storage_available = True,
               localStorage = [STORAGE_KEY \<mapsto> ''{"todos":5}'']\<rparr>)
      = Some (JObj [(''todos'', JNum (Number 5))])
   \<and> as_PersistedState JNull = None
   \<and> loadState
        (\<lambda>text. if text = ''{"todos":5}'' then Inr (JObj [(''todos'', JNum (Number 5))])
                else if text = ''null'' then Inr JNull else Inl Thrown)
        (Some \<lparr>storage_available = True, localStorage = [STORAGE_KEY \<mapsto> ''null'']\<rparr>)
      = Some JNull\<close>
  by (simp add: loadState_def getItem_def)

subsection \<open>Trimming and the form handler\<close>

lemma dropWhile_trim:
  "dropWhile is_ws s = trim s @ rev (takeWhile is_ws (rev (dropWhile is_ws s)))"
proof -
  let ?u = "dropWhile is_ws s"
  have "trim s @ rev (takeWhile is_ws (rev ?u))
        = rev (takeWhile is_ws (rev ?u) @ dropWhile is_ws (rev ?u))"
    by (simp only: trim_def rev_append)
  also have "\<dots> = rev (rev ?u)" by (simp only: takeWhile_dropWhile_id)
  also have "\<dots> = ?u" by simp
  finally show ?thesis by simp
qed

lemma trim_decomposition:
  "\<exists>pre post. s = pre @ trim s @ post \<and> list_all is_ws pre \<and> list_all is_ws post"
proof -
  let ?u = "dropWhile is_ws s"
  let ?post = "rev (takeWhile is_ws (rev ?u))"
  have u: "?u = trim s @ ?post" by (rule dropWhile_trim)
  have "s = takeWhile is_ws s @ ?u" by simp
  then have "s = takeWhile is_ws s @ trim s @ ?post" using u by simp
  moreover have "list_all is_ws (takeWhile is_ws s)"
    by (simp add: list_all_iff) (meson set_takeWhileD)
  moreover have "list_all is_ws ?post"
    by (simp add: list_all_iff) (meson set_takeWhileD)
  ultimately show ?thesis by blast
qed

lemma trim_ends:
  assumes "trim s \<noteq> []"
  shows "\<not> is_ws (hd (trim s)) \<and> \<not> is_ws (last (trim s))"
proof -
  let ?u = "dropWhile is_ws s"
  let ?v = "dropWhile is_ws (rev ?u)"
  have v: "?v \<noteq> []" using assms by (simp add: trim_def)
  then have "\<not> is_ws (hd ?v)" by (rule hd_dropWhile)
  then have l: "\<not> is_ws (last (trim s))" using v by (simp add: trim_def last_rev)
  have u: "?u = trim s @ rev (takeWhile is_ws (rev ?u))" by (rule dropWhile_trim)
  then have "?u \<noteq> []" using assms by (metis append_is_Nil_conv)
  then have "\<not> is_ws (hd ?u)" by (rule hd_dropWhile)
  moreover have "hd ?u = hd (trim s)" using u assms by (metis hd_append2)
  ultimately show ?thesis using l by simp
qed


subsection \<open>The claims on concrete states\<close>

text \<open>The definitions that a run on a concrete state unfolds.\<close>

lemmas run_simps = dispatch_all_def initialState_def starterTodos_def seed0_def has_id_def
  addTodo_def updateTodo_def toggleComplete_def deleteTodo_def reorderActive_def
  touchState_def nextOrder_def Let_def max_def number_simps

theorem completedAt_iff_completed_witness:
  "hd (items (dispatch_all (initialState seed0) [ToggleComplete ''t1'' ''t2'' ''a'']))
     \<in> set (items (dispatch_all (initialState seed0) [ToggleComplete ''t1'' ''t2'' ''a'']))
   \<and> completed (hd (items (dispatch_all (initialState seed0) [ToggleComplete ''t1'' ''t2'' ''a''])))
   \<and> (\<exists>ts. completedAt
               (hd (items (dispatch_all (initialState seed0) [ToggleComplete ''t1'' ''t2'' ''a''])))
             = Value ts)"
proof -
  let ?s = "dispatch_all (initialState seed0) [ToggleComplete ''t1'' ''t2'' ''a'']"
  have mem: "hd (items ?s) \<in> set (items ?s)" by (simp add: run_simps)
  have c: "completed (hd (items ?s))" by (simp add: run_simps)
  from completedAt_iff_completed[OF mem] c mem show ?thesis by simp
qed



theorem updateTodo_order_witness:
  "find (has_id ''c'') (items (initialState seed0)) = Some (last (starterTodos seed0))
   \<and> map_option order
        (find (has_id ''c'')
           (items (updateTodo ''t1'' ''t2'' (initialState seed0)
              \<lparr>p_id = ''c'',
                changes = \<lparr>p_title = ''Call mom'', p_description = None, p_category = None,
                           p_priority = low, p_dueDate = Undefined,
                           p_completed = Some False\<rparr>\<rparr>))) = Some (Number 4)
   \<and> map_option order
        (find (has_id ''c'')
           (items (updateTodo ''t1'' ''t2'' (initialState seed0)
              \<lparr>p_id = ''c'',
                changes = \<lparr>p_title = ''Call mom'', p_description = None, p_category = None,
                           p_priority = low, p_dueDate = Undefined,
                           p_completed = Some True\<rparr>\<rparr>))) = Some (Number 3)"
proof -
  let ?ch = "\<lambda>c. \<lparr>p_title = ''Call mom'', p_description = None, p_category = None,
              p_priority = low, p_dueDate = Undefined, p_completed = Some c\<rparr>"
  have f: "find (has_id ''c'') (items (initialState seed0)) = Some (last (starterTodos seed0))"
    by (simp add: run_simps)
  have c1: "p_completed (?ch False) = Some False" and c2: "p_completed (?ch True) = Some True"
    by simp_all
  have n: "nextOrder (items (initialState seed0)) = Number 4" by (simp add: run_simps)
  have o: "order (last (starterTodos seed0)) = Number 3" by (simp add: run_simps)
  from updateTodo_order[OF f c1, where t_completed = "''t1''" and t_touch = "''t2''"]
       updateTodo_order[OF f c2, where t_completed = "''t1''" and t_touch = "''t2''"] f n o
  show ?thesis by simp
qed

text \<open>
  Claim C4 as it was written fails in two ways. The first starter task is active and has
  order 1: an update that provides \<open>completed = false\<close> gives it order 4, so the order is
  reassigned without a transition from completed. And in a collection whose only task is
  completed and has order -5, an update to not completed gives order 1, which is one more
  than the largest of 0 and -5; the maximum order plus one is -4.
\<close>

theorem updateTodo_order_counterexample:
  "map_option completed (find (has_id ''a'') (items (initialState seed0))) = Some False
   \<and> map_option order (find (has_id ''a'') (items (initialState seed0))) = Some (Number 1)
   \<and> map_option order
        (find (has_id ''a'')
           (items (updateTodo ''t1'' ''t2'' (initialState seed0)
              \<lparr>p_id = ''a'',
                changes = \<lparr>p_title = ''Plan sprint backlog'', p_description = None,
                           p_category = None, p_priority = high, p_dueDate = Undefined,
                           p_completed = Some False\<rparr>\<rparr>))) = Some (Number 4)
   \<and> Number 1 \<noteq> Number 4
   \<and> map_option order
        (find (has_id ''c'')
           (items (updateTodo ''t1'' ''t2''
              \<lparr>items = [(last (starterTodos seed0))\<lparr>order := Number (- 5)\<rparr>],
                lastUpdated = None\<rparr>
              \<lparr>p_id = ''c'',
                changes = \<lparr>p_title = ''Call mom'', p_description = None, p_category = None,
                           p_priority = low, p_dueDate = Undefined,
                           p_completed = Some False\<rparr>\<rparr>))) = Some (Number 1)
   \<and> js_plus (Number (- 5)) (Number 1) = Number (- 4)
   \<and> Number 1 \<noteq> Number (- 4)"
  by (simp add: run_simps)

theorem uncompleted_task_order_witness:
  "find (has_id ''c'') (items (initialState seed0)) = Some (last (starterTodos seed0))
   \<and> completed (last (starterTodos seed0))
   \<and> (\<exists>todo'. find (has_id ''c'') (items (toggleComplete ''t1'' ''t2'' (initialState seed0) ''c''))
               = Some todo'
         \<and> \<not> completed todo'
         \<and> order todo' = Number 4
         \<and> (\<forall>u\<in>set (items (toggleComplete ''t1'' ''t2'' (initialState seed0) ''c'')).
               order u \<le> order todo')
         \<and> (\<forall>u\<in>set (items (toggleComplete ''t1'' ''t2'' (initialState seed0) ''c'')).
               u \<noteq> todo' \<longrightarrow> order u < order todo'))"
proof -
  let ?ch = "\<lparr>p_title = ''Call mom'', p_description = None, p_category = None,
              p_priority = low, p_dueDate = Undefined, p_completed = Some False\<rparr>"
  have f: "find (has_id ''c'') (items (initialState seed0)) = Some (last (starterTodos seed0))"
    by (simp add: run_simps)
  have c: "completed (last (starterTodos seed0))" by (simp add: run_simps)
  have p: "p_completed ?ch = Some False" by simp
  have n: "nextOrder (items (initialState seed0)) = Number 4" by (simp add: run_simps)
  have safe: "\<forall>u\<in>set (items (initialState seed0)). order u < Number (2 ^ 53)"
    by (simp add: initialState_def starterTodos_def number_simps)
  have "toggleComplete ''t1'' ''t2'' (initialState seed0) ''c''
          = toggleComplete ''t1'' ''t2'' (initialState seed0) ''c''
        \<or> toggleComplete ''t1'' ''t2'' (initialState seed0) ''c''
          = updateTodo ''t1'' ''t2'' (initialState seed0) \<lparr>p_id = ''c'', changes = ?ch\<rparr>"
    by simp
  from uncompleted_task_order[OF f c p this] f c n safe show ?thesis by simp
qed

text \<open>
  Claim C5 as it was written fails at \<open>2 ^ 53 = 9007199254740992\<close>, where a double has no
  room for the added one. In the collection of the active task \<open>a\<close> with that order and
  the completed task \<open>c\<close> with order 3, toggling \<open>c\<close> gives it the order
  \<open>9007199254740992\<close>, which is the order of \<open>a\<close> and not above it.
\<close>

theorem uncompleted_task_order_counterexample:
  "map_option completed
     (find (has_id ''c'')
        [(hd (starterTodos seed0))\<lparr>order := Number 9007199254740992\<rparr>,
         last (starterTodos seed0)]) = Some True
   \<and> map_option order
        (find (has_id ''c'')
           (items (toggleComplete ''t1'' ''t2''
              \<lparr>items = [(hd (starterTodos seed0))\<lparr>order := Number 9007199254740992\<rparr>,
                         last (starterTodos seed0)],
                lastUpdated = None\<rparr> ''c''))) = Some (Number 9007199254740992)
   \<and> map_option order
        (find (has_id ''a'')
           (items (toggleComplete ''t1'' ''t2''
              \<lparr>items = [(hd (starterTodos seed0))\<lparr>order := Number 9007199254740992\<rparr>,
                         last (starterTodos seed0)],
                lastUpdated = None\<rparr> ''c''))) = Some (Number 9007199254740992)
   \<and> \<not> Number 9007199254740992 < Number 9007199254740992"
  by (simp add: run_simps)

theorem toggle_twice_witness:
  "find (has_id ''a'') (items (initialState seed0)) = Some (hd (starterTodos seed0))
   \<and> \<not> completed (hd (starterTodos seed0))
   \<and> order (hd (starterTodos seed0)) = Number 1
   \<and> (\<exists>todo'. find (has_id ''a'')
                 (items (toggleComplete ''t3'' ''t4''
                    (toggleComplete ''t1'' ''t2'' (initialState seed0) ''a'') ''a''))
               = Some todo'
         \<and> \<not> completed todo' \<and> Number 1 \<le> order todo' \<and> completedAt todo' = Null)"
proof -
  have f: "find (has_id ''a'') (items (initialState seed0)) = Some (hd (starterTodos seed0))"
    by (simp add: run_simps)
  have c: "\<not> completed (hd (starterTodos seed0))" by (simp add: run_simps)
  have o: "order (hd (starterTodos seed0)) = Number 1" by (simp add: run_simps)
  from toggle_twice[OF f, of "''t3''" "''t4''" "''t1''" "''t2''"] f c o show ?thesis by simp
qed

text \<open>
  Claim C6 as it was written fails on the third starter task, which is completed: after
  two toggles its \<open>completedAt\<close> is the time of the second toggle, not \<open>null\<close>.
\<close>

theorem toggle_twice_counterexample:
  "map_option completedAt
     (find (has_id ''c'')
        (items (toggleComplete ''t3'' ''t4''
           (toggleComplete ''t1'' ''t2'' (initialState seed0) ''c'') ''c'')))
   = Some (Value ''t3'')"
  by (simp add: run_simps)




end
